theory Spec2Isabelle
  imports Complex_Main "HOL-Library.Char_ord" "HOL-Library.List_Lexorder"
begin

section \<open>Data model\<close>

text \<open>
  The cleaning service \<^verbatim>\<open>preprocess_excel\<close> (src/service/preprocesss.py) works on a pandas
  DataFrame read from a spreadsheet.  A cell is a number, a text, or the null marker
  (NaN / None).  Spreadsheet numbers are idealised as exact rationals.  A DataFrame is a
  list of row labels (the index) and an ordered list of named columns; its shape is
  (length of the index, number of columns), so a frame without columns still has rows.
\<close>

datatype cell = Num rat | Text string | Null

type_synonym series = "cell list"

record dataframe =
  index :: "nat list"
  columns :: "(string \<times> series) list"

datatype error = Empty_file | Processing_error

definition nrows :: "dataframe \<Rightarrow> nat" where
  "nrows df = length (index df)"

definition ncols :: "dataframe \<Rightarrow> nat" where
  "ncols df = length (columns df)"

definition col_names :: "dataframe \<Rightarrow> string list" where
  "col_names df = map fst (columns df)"

text \<open>\<^verbatim>\<open>df.empty\<close>: true when either axis has length zero.\<close>

definition df_empty :: "dataframe \<Rightarrow> bool" where
  "df_empty df = (nrows df = 0 \<or> ncols df = 0)"

text \<open>
  A frame as \<^verbatim>\<open>pd.read_excel\<close> delivers it: every column is as long as the index, and
  the column labels are pairwise distinct (the reader renames repeated headers).
\<close>

definition wf_dataframe :: "dataframe \<Rightarrow> bool" where
  "wf_dataframe df =
     (list_all (\<lambda>(n, s). length s = nrows df) (columns df) \<and> distinct (col_names df))"

definition isnull :: "cell \<Rightarrow> bool" where
  "isnull c = (c = Null)"

text \<open>\<^verbatim>\<open>df.isnull().sum().sum()\<close>: the number of null cells of the frame.\<close>

definition null_count :: "dataframe \<Rightarrow> int" where
  "null_count df = int (sum_list (map (\<lambda>(n, s). length (filter isnull s)) (columns df)))"

section \<open>Stage 1: columns that are entirely null\<close>

text \<open>\<^verbatim>\<open>df.dropna(axis=1, how='all')\<close>\<close>

definition dropna_all_null_columns :: "dataframe \<Rightarrow> dataframe" where
  "dropna_all_null_columns df =
     df\<lparr>columns := filter (\<lambda>(n, s). \<not> list_all isnull s) (columns df)\<rparr>"

section \<open>Stage 2: duplicate rows\<close>

definition row_at :: "dataframe \<Rightarrow> nat \<Rightarrow> cell list" where
  "row_at df i = map (\<lambda>(n, s). s ! i) (columns df)"

text \<open>
  \<^verbatim>\<open>df.duplicated()\<close> (keep='first'): row \<open>i\<close> is marked when an earlier row has the same
  cells, null counting as equal to null.  pandas returns an empty result at once for a
  frame that is \<^verbatim>\<open>empty\<close>, and \<^verbatim>\<open>drop_duplicates\<close> returns a copy of such a frame.
\<close>

definition duplicated :: "dataframe \<Rightarrow> bool list" where
  "duplicated df =
     (if df_empty df then []
      else map (\<lambda>i. row_at df i \<in> set (map (row_at df) [0..<i])) [0..<nrows df])"

definition take_rows :: "nat list \<Rightarrow> dataframe \<Rightarrow> dataframe" where
  "take_rows keep df =
     \<lparr>index = map (\<lambda>i. index df ! i) keep,
      columns = map (\<lambda>(n, s). (n, map (\<lambda>i. s ! i) keep)) (columns df)\<rparr>"

definition drop_duplicates :: "dataframe \<Rightarrow> dataframe" where
  "drop_duplicates df =
     (if df_empty df then df
      else take_rows (filter (\<lambda>i. \<not> duplicated df ! i) [0..<nrows df]) df)"

text \<open>\<^verbatim>\<open>reset_index(drop=True)\<close>: the row labels become 0, 1, 2, ...\<close>

definition reset_index :: "dataframe \<Rightarrow> dataframe" where
  "reset_index df = df\<lparr>index := [0..<nrows df]\<rparr>"

section \<open>Stage 3: missing values\<close>

text \<open>
  The dtype pandas infers for a column: a column without any text cell is numeric
  (int64 / float64), a column with a text cell has dtype object.
\<close>

definition is_numeric_dtype :: "series \<Rightarrow> bool" where
  "is_numeric_dtype s = list_all (\<lambda>c. case c of Text t \<Rightarrow> False | _ \<Rightarrow> True) s"

definition numeric_cols :: "dataframe \<Rightarrow> string list" where
  "numeric_cols df = map fst (filter (\<lambda>(n, s). is_numeric_dtype s) (columns df))"

definition categorical_cols :: "dataframe \<Rightarrow> string list" where
  "categorical_cols df = map fst (filter (\<lambda>(n, s). \<not> is_numeric_dtype s) (columns df))"

fun num_values :: "series \<Rightarrow> rat list" where
  "num_values [] = []"
| "num_values (Num x # cs) = x # num_values cs"
| "num_values (c # cs) = num_values cs"

text \<open>
  \<^verbatim>\<open>Series.median()\<close>: nulls are skipped; \<open>None\<close> stands for the NaN of an all-null
  column.  The average of the two middle values is taken exactly.
\<close>

definition median :: "series \<Rightarrow> rat option" where
  "median s =
     (let vs = sort (num_values s); n = length vs
      in if n = 0 then None
         else if odd n then Some (vs ! (n div 2))
         else Some ((vs ! (n div 2 - 1) + vs ! (n div 2)) / 2))"

definition fillna :: "cell \<Rightarrow> series \<Rightarrow> series" where
  "fillna v s = map (\<lambda>c. if isnull c then v else c) s"

definition fill_median :: "series \<Rightarrow> series" where
  "fill_median s = (case median s of None \<Rightarrow> s | Some m \<Rightarrow> fillna (Num m) s)"

text \<open>The distinct values of a list in the order of their first appearance.\<close>

fun uniq :: "'a list \<Rightarrow> 'a list" where
  "uniq [] = []"
| "uniq (x # xs) = x # filter (\<lambda>y. y \<noteq> x) (uniq xs)"

fun text_values :: "cell list \<Rightarrow> string list option" where
  "text_values [] = Some []"
| "text_values (Text t # cs) = map_option (\<lambda>ts. t # ts) (text_values cs)"
| "text_values (c # cs) = None"

fun only_nums :: "cell list \<Rightarrow> rat list option" where
  "only_nums [] = Some []"
| "only_nums (Num x # cs) = map_option (\<lambda>xs. x # xs) (only_nums cs)"
| "only_nums (c # cs) = None"

text \<open>
  Sorting an array of Python objects: texts among themselves compare by code point,
  numbers among themselves by value; a text against a number raises TypeError (\<open>None\<close>).
\<close>

definition np_sort :: "cell list \<Rightarrow> cell list option" where
  "np_sort vs =
     (case text_values vs of
        Some ts \<Rightarrow> Some (map Text (sort ts))
      | None \<Rightarrow> (case only_nums vs of
                  Some xs \<Rightarrow> Some (map Num (sort xs))
                | None \<Rightarrow> None))"

text \<open>
  \<^verbatim>\<open>Series.mode()\<close>: the non-null values of the highest frequency, in sorted order; when
  they cannot be sorted (texts tied with numbers) pandas up to 2.2 only warns and leaves
  them in order of first appearance.
\<close>

definition series_mode :: "series \<Rightarrow> cell list" where
  "series_mode s =
     (let vs = filter (\<lambda>c. \<not> isnull c) s;
          keys = uniq vs;
          top = foldr max (map (count_list vs) keys) 0;
          modes = filter (\<lambda>k. count_list vs k = top) keys
      in case np_sort modes of Some sorted_modes \<Rightarrow> sorted_modes | None \<Rightarrow> modes)"

definition fill_mode :: "series \<Rightarrow> series" where
  "fill_mode s =
     (if s \<noteq> [] then
        (let mode_val = series_mode s
         in if mode_val \<noteq> [] then fillna (hd mode_val) s else s)
      else s)"

text \<open>\<^verbatim>\<open>ffill\<close> copies the last valid value forward, \<^verbatim>\<open>bfill\<close> the next valid value backward.\<close>

fun ffill_from :: "cell \<Rightarrow> series \<Rightarrow> series" where
  "ffill_from prev [] = []"
| "ffill_from prev (c # cs) =
     (if isnull c then prev # ffill_from prev cs else c # ffill_from c cs)"

definition ffill :: "series \<Rightarrow> series" where
  "ffill s = ffill_from Null s"

fun bfill :: "series \<Rightarrow> series" where
  "bfill [] = []"
| "bfill (c # cs) =
     (let rest = bfill cs
      in (if isnull c then (case rest of [] \<Rightarrow> Null | nxt # _ \<Rightarrow> nxt) else c) # rest)"

definition update_cols :: "string list \<Rightarrow> (series \<Rightarrow> series) \<Rightarrow> dataframe \<Rightarrow> dataframe" where
  "update_cols names f df =
     df\<lparr>columns := map (\<lambda>(n, s). if n \<in> set names then (n, f s) else (n, s)) (columns df)\<rparr>"

definition map_cols :: "(series \<Rightarrow> series) \<Rightarrow> dataframe \<Rightarrow> dataframe" where
  "map_cols f df = df\<lparr>columns := map (\<lambda>(n, s). (n, f s)) (columns df)\<rparr>"

text \<open>Lines 46 to 63: the dtype selections are taken before any filling.\<close>

definition handle_missing :: "dataframe \<Rightarrow> dataframe" where
  "handle_missing df =
     (let nums = numeric_cols df;
          cats = categorical_cols df;
          df1 = (if nums \<noteq> [] then update_cols nums fill_median df else df);
          df2 = (if cats \<noteq> [] then update_cols cats fill_mode df1 else df1);
          df3 = map_cols ffill df2
      in map_cols bfill df3)"

section \<open>Stage 4: column names\<close>

text \<open>
  Python strings are modelled with one \<^typ>\<open>char\<close> per code point below 256.
  \<^verbatim>\<open>str.isspace\<close> and \<^verbatim>\<open>str.lower\<close> on these code points:
\<close>

definition py_isspace :: "char \<Rightarrow> bool" where
  "py_isspace c =
     (let k = (of_char c :: nat)
      in (9 \<le> k \<and> k \<le> 13) \<or> (28 \<le> k \<and> k \<le> 32) \<or> k = 133 \<or> k = 160)"

definition py_lower_char :: "char \<Rightarrow> char" where
  "py_lower_char c =
     (let k = (of_char c :: nat)
      in if (65 \<le> k \<and> k \<le> 90) \<or> (192 \<le> k \<and> k \<le> 222 \<and> k \<noteq> 215)
         then char_of (k + 32) else c)"

definition py_lstrip :: "string \<Rightarrow> string" where
  "py_lstrip s = dropWhile py_isspace s"

definition py_rstrip :: "string \<Rightarrow> string" where
  "py_rstrip s = rev (dropWhile py_isspace (rev s))"

definition py_strip :: "string \<Rightarrow> string" where
  "py_strip s = py_rstrip (py_lstrip s)"

text \<open>\<^verbatim>\<open>s.replace(" ", "_")\<close>\<close>

definition replace_space :: "string \<Rightarrow> string" where
  "replace_space s = map (\<lambda>c. if c = CHR '' '' then CHR ''_'' else c) s"

definition py_lower :: "string \<Rightarrow> string" where
  "py_lower s = map py_lower_char s"

definition normalize_name :: "string \<Rightarrow> string" where
  "normalize_name col = py_lower (replace_space (py_strip col))"

definition normalize_columns :: "dataframe \<Rightarrow> dataframe" where
  "normalize_columns df = df\<lparr>columns := map (\<lambda>(n, s). (normalize_name n, s)) (columns df)\<rparr>"

section \<open>Quality score\<close>

text \<open>
  The code computes the score in double-precision floating point.  Here its arithmetic
  is idealised on exact rationals, so a value may differ from the code's in the last
  digit; only the guard \<open>total_cells = 0\<close>, which returns the integer 0, is exact.
  \<^verbatim>\<open>round(x, 2)\<close>: the nearest multiple of 1/100, a tie going to the even multiple.
\<close>

definition round_half_even :: "rat \<Rightarrow> int" where
  "round_half_even r =
     (let f = \<lfloor>r\<rfloor>; d = r - of_int f
      in if d < 1 / 2 then f
         else if 1 / 2 < d then f + 1
         else if even f then f else f + 1)"

definition py_round2 :: "rat \<Rightarrow> rat" where
  "py_round2 x = of_int (round_half_even (x * 100)) / 100"

definition completeness_score :: "int \<Rightarrow> int \<Rightarrow> rat" where
  "completeness_score missing_after total_cells =
     max 0 (100 - (of_int missing_after / of_int total_cells * 100))"

definition improvement_score :: "int \<Rightarrow> int \<Rightarrow> rat" where
  "improvement_score missing_before missing_after =
     (let improvement =
            (if missing_before > 0
             then of_int (missing_before - missing_after) / of_int missing_before * 100
             else 100)
      in max 0 (min 100 improvement))"

definition consistency_score :: "int \<Rightarrow> int \<Rightarrow> rat" where
  "consistency_score original_rows duplicates_removed =
     (if original_rows > 0
      then max 0 (100 - (of_int duplicates_removed / of_int original_rows * 100))
      else 100)"

definition calculate_data_score :: "int \<Rightarrow> int \<Rightarrow> int \<Rightarrow> int \<Rightarrow> int \<Rightarrow> rat" where
  "calculate_data_score original_rows original_cols missing_before missing_after
       duplicates_removed =
     (let total_cells = original_rows * original_cols
      in if total_cells = 0 then 0
         else
           (let completeness = completeness_score missing_after total_cells;
                improvement = improvement_score missing_before missing_after;
                consistency = consistency_score original_rows duplicates_removed;
                final_score = (4 / 10) * completeness + (3 / 10) * improvement
                                + (3 / 10) * consistency
            in max 0 (min 100 (py_round2 final_score))))"

section \<open>The pipeline\<close>

text \<open>The \<^verbatim>\<open>data\<close> part of a successful response.\<close>

record report =
  original_rows :: int
  original_columns :: int
  processed_rows :: int
  processed_columns :: int
  missing_values_before :: int
  missing_values_after :: int
  duplicates_removed :: int
  null_columns_removed :: int
  data_quality_score :: rat

definition preprocess_excel :: "dataframe \<Rightarrow> error + (dataframe \<times> report)" where
  "preprocess_excel df0 =
     (if df_empty df0 then Inl Empty_file
      else
        (let orig_rows = int (nrows df0);
             orig_cols = int (ncols df0);
             cols_before = int (ncols df0);
             df1 = dropna_all_null_columns df0;
             null_cols_removed = cols_before - int (ncols df1);
             duplicates_before = int (length (filter (\<lambda>b. b) (duplicated df1)));
             df2 = reset_index (drop_duplicates df1);
             dups_removed = duplicates_before;
             missing_before = null_count df0;
             df3 = handle_missing df2;
             missing_after = null_count df3;
             df4 = normalize_columns df3;
             data_score = calculate_data_score orig_rows orig_cols missing_before
                            missing_after dups_removed
         in Inr (df4,
                 \<lparr>original_rows = orig_rows,
                  original_columns = orig_cols,
                  processed_rows = int (nrows df4),
                  processed_columns = int (ncols df4),
                  missing_values_before = missing_before,
                  missing_values_after = missing_after,
                  duplicates_removed = dups_removed,
                  null_columns_removed = null_cols_removed,
                  data_quality_score = data_score\<rparr>)))"

section \<open>Reference definitions for the stated properties\<close>

text \<open>
  The rows of a frame, and the positions of the rows that have no equal row before
  them (the first occurrences), in ascending order.
\<close>

definition rows_of :: "dataframe \<Rightarrow> cell list list" where
  "rows_of df = map (row_at df) [0..<nrows df]"

definition first_occurrences :: "dataframe \<Rightarrow> nat list" where
  "first_occurrences df =
     filter (\<lambda>i. row_at df i \<notin> set (map (row_at df) [0..<i])) [0..<nrows df]"

text \<open>A frame without any null cell.\<close>

definition no_nulls :: "dataframe \<Rightarrow> bool" where
  "no_nulls df = list_all (\<lambda>(n, s). list_all (\<lambda>c. \<not> isnull c) s) (columns df)"

text \<open>
  What lines 46 to 63 make of the column \<open>s\<close> labelled \<open>n\<close> of the frame \<open>df\<close>.
\<close>

definition column_after_missing :: "dataframe \<Rightarrow> string \<Rightarrow> series \<Rightarrow> series" where
  "column_after_missing df n s =
     (let s1 = (if n \<in> set (numeric_cols df) then fill_median s else s);
          s2 = (if n \<in> set (categorical_cols df) then fill_mode s1 else s1)
      in bfill (ffill s2))"

text \<open>The frame after stages 1 and 2 (lines 32 to 40).\<close>

definition deduplicated :: "dataframe \<Rightarrow> dataframe" where
  "deduplicated df = reset_index (drop_duplicates (dropna_all_null_columns df))"

text \<open>
  Example frames: the three-row scenario of the specification with its cleaned frame and
  report, and a sheet that has a header row but no data rows.
\<close>

definition scenario_frame :: dataframe where
  "scenario_frame =
     \<lparr>index = [0, 1, 2],
      columns = [(''A'', [Num 1, Null, Num 3]),
                 (''B'', [Null, Null, Null]),
                 (''C'', [Text ''x'', Text ''x'', Text ''y''])]\<rparr>"

definition scenario_cleaned :: dataframe where
  "scenario_cleaned =
     \<lparr>index = [0, 1, 2],
      columns = [(''a'', [Num 1, Num 2, Num 3]),
                 (''c'', [Text ''x'', Text ''x'', Text ''y''])]\<rparr>"

definition scenario_report :: report where
  "scenario_report =
     \<lparr>original_rows = 3, original_columns = 3, processed_rows = 3, processed_columns = 2,
      missing_values_before = 4, missing_values_after = 0, duplicates_removed = 0,
      null_columns_removed = 1, data_quality_score = 100\<rparr>"

definition header_only_frame :: dataframe where
  "header_only_frame = \<lparr>index = [], columns = [(''A'', [])]\<rparr>"

text \<open>
  Three rows of which the first and the last are identical, and a frame whose only
  column is entirely null.
\<close>

definition three_rows_frame :: dataframe where
  "three_rows_frame =
     \<lparr>index = [0, 1, 2],
      columns = [(''name'', [Text ''a'', Text ''b'', Text ''a'']),
                 (''n'', [Num 1, Num 2, Num 1])]\<rparr>"

definition three_rows_cleaned :: dataframe where
  "three_rows_cleaned =
     \<lparr>index = [0, 1],
      columns = [(''name'', [Text ''a'', Text ''b'']), (''n'', [Num 1, Num 2])]\<rparr>"

definition three_rows_report :: report where
  "three_rows_report =
     \<lparr>original_rows = 3, original_columns = 2, processed_rows = 2, processed_columns = 2,
      missing_values_before = 0, missing_values_after = 0, duplicates_removed = 1,
      null_columns_removed = 0, data_quality_score = 90\<rparr>"

definition all_null_frame :: dataframe where
  "all_null_frame = \<lparr>index = [0, 1], columns = [(''A'', [Null, Null])]\<rparr>"

text \<open>
  A frame with a header to be normalised, and a frame with two distinct headers that
  normalise to the same name.
\<close>

definition first_name_frame :: dataframe where
  "first_name_frame = \<lparr>index = [0], columns = [('' First Name '', [Text ''Ada''])]\<rparr>"

definition first_name_cleaned :: dataframe where
  "first_name_cleaned = \<lparr>index = [0], columns = [(''first_name'', [Text ''Ada''])]\<rparr>"

definition first_name_report :: report where
  "first_name_report =
     \<lparr>original_rows = 1, original_columns = 1, processed_rows = 1, processed_columns = 1,
      missing_values_before = 0, missing_values_after = 0, duplicates_removed = 0,
      null_columns_removed = 0, data_quality_score = 100\<rparr>"

definition colliding_frame :: dataframe where
  "colliding_frame = \<lparr>index = [0], columns = [(''A B'', [Num 1]), (''a_b'', [Num 2])]\<rparr>"

definition colliding_cleaned :: dataframe where
  "colliding_cleaned = \<lparr>index = [0], columns = [(''a_b'', [Num 1]), (''a_b'', [Num 2])]\<rparr>"

definition colliding_report :: report where
  "colliding_report =
     \<lparr>original_rows = 1, original_columns = 2, processed_rows = 1, processed_columns = 2,
      missing_values_before = 0, missing_values_after = 0, duplicates_removed = 0,
      null_columns_removed = 0, data_quality_score = 100\<rparr>"

text \<open>
  Mode imputation as the specification words it: the most frequent non-null value, a
  tie going to the value met first in column order.
\<close>

definition first_encountered_mode :: "series \<Rightarrow> cell option" where
  "first_encountered_mode s =
     (let vs = filter (\<lambda>c. \<not> isnull c) s;
          keys = uniq vs;
          top = foldr max (map (count_list vs) keys) 0
      in case filter (\<lambda>k. count_list vs k = top) keys of
           [] \<Rightarrow> None
         | m # rest \<Rightarrow> Some m)"

definition spec_fill_text :: "series \<Rightarrow> series" where
  "spec_fill_text s = (case first_encountered_mode s of None \<Rightarrow> s | Some m \<Rightarrow> fillna m s)"

text \<open>A text column in which two values tie and the later one sorts first.\<close>

definition tie_frame :: dataframe where
  "tie_frame = \<lparr>index = [0, 1, 2], columns = [(''city'', [Text ''b'', Text ''a'', Null])]\<rparr>"

definition tie_column :: series where
  "tie_column = [Text ''b'', Text ''a'', Null]"

definition tie_cleaned :: dataframe where
  "tie_cleaned =
     \<lparr>index = [0, 1, 2], columns = [(''city'', [Text ''b'', Text ''a'', Text ''a''])]\<rparr>"

definition tie_report :: report where
  "tie_report =
     \<lparr>original_rows = 3, original_columns = 1, processed_rows = 3, processed_columns = 1,
      missing_values_before = 1, missing_values_after = 0, duplicates_removed = 0,
      null_columns_removed = 0, data_quality_score = 100\<rparr>"

text \<open>
  Two rows that differ only in a null cell: imputation makes them equal.  The frames and
  reports of a first and a second run of the pipeline follow.
\<close>

definition near_duplicate_frame :: dataframe where
  "near_duplicate_frame =
     \<lparr>index = [0, 1], columns = [(''A'', [Num 1, Num 1]), (''B'', [Null, Num 2])]\<rparr>"

definition near_duplicate_cleaned :: dataframe where
  "near_duplicate_cleaned =
     \<lparr>index = [0, 1], columns = [(''a'', [Num 1, Num 1]), (''b'', [Num 2, Num 2])]\<rparr>"

definition near_duplicate_report :: report where
  "near_duplicate_report =
     \<lparr>original_rows = 2, original_columns = 2, processed_rows = 2, processed_columns = 2,
      missing_values_before = 1, missing_values_after = 0, duplicates_removed = 0,
      null_columns_removed = 0, data_quality_score = 100\<rparr>"

definition near_duplicate_cleaned_again :: dataframe where
  "near_duplicate_cleaned_again =
     \<lparr>index = [0], columns = [(''a'', [Num 1]), (''b'', [Num 2])]\<rparr>"

definition near_duplicate_report_again :: report where
  "near_duplicate_report_again =
     \<lparr>original_rows = 2, original_columns = 2, processed_rows = 1, processed_columns = 2,
      missing_values_before = 0, missing_values_after = 0, duplicates_removed = 1,
      null_columns_removed = 0, data_quality_score = 85\<rparr>"

definition scenario_report_again :: report where
  "scenario_report_again =
     \<lparr>original_rows = 3, original_columns = 2, processed_rows = 3, processed_columns = 2,
      missing_values_before = 0, missing_values_after = 0, duplicates_removed = 0,
      null_columns_removed = 0, data_quality_score = 100\<rparr>"

section \<open>The zero-cell short-circuit of the score\<close>

text \<open>
  C7. Whenever \<open>original_rows * original_cols = 0\<close> the score is exactly 0, whatever the
  other three statistics are: the check comes before every sub-score formula.
\<close>

theorem score_zero_cells:
  "rows * cols = 0 \<Longrightarrow> calculate_data_score rows cols mb ma dups = 0"
  by (simp add: calculate_data_score_def)

theorem score_zero_cells_witness:
  "(0::int) * 5 = 0 \<and> calculate_data_score 0 5 7 3 2 = 0"
  using score_zero_cells [of 0 5 7 3 2] by simp

section \<open>Facts about the stages\<close>

subsection \<open>Stage 1\<close>

lemma nrows_dropna: "nrows (dropna_all_null_columns df) = nrows df"
  by (simp add: dropna_all_null_columns_def nrows_def)

lemma columns_dropna:
  "columns (dropna_all_null_columns df) = filter (\<lambda>(n, s). \<not> list_all isnull s) (columns df)"
  by (simp add: dropna_all_null_columns_def)

lemma wf_dropna: "wf_dataframe df \<Longrightarrow> wf_dataframe (dropna_all_null_columns df)"
  by (auto simp: wf_dataframe_def columns_dropna nrows_dropna col_names_def list_all_iff
      distinct_map_filter)

lemma dropna_has_value:
  "(n, s) \<in> set (columns (dropna_all_null_columns df)) \<Longrightarrow> \<not> list_all isnull s"
  by (auto simp: columns_dropna)

subsection \<open>Stage 2\<close>

lemma duplicated_nth:
  "\<not> df_empty df \<Longrightarrow> i < nrows df \<Longrightarrow>
   duplicated df ! i = (row_at df i \<in> set (map (row_at df) [0..<i]))"
  by (simp add: duplicated_def)

lemma drop_duplicates_first_occurrences:
  "\<not> df_empty df \<Longrightarrow> drop_duplicates df = take_rows (first_occurrences df) df"
proof -
  assume ne: "\<not> df_empty df"
  have "filter (\<lambda>i. \<not> duplicated df ! i) [0..<nrows df] = first_occurrences df"
    unfolding first_occurrences_def
    by (rule filter_cong) (auto simp: duplicated_nth [OF ne])
  then show ?thesis using ne by (simp add: drop_duplicates_def)
qed

lemma first_occurrences_bound: "k \<in> set (first_occurrences df) \<Longrightarrow> k < nrows df"
  by (simp add: first_occurrences_def)

lemma first_occurrence_exists:
  "i < nrows df \<Longrightarrow> \<exists>k\<in>set (first_occurrences df). k \<le> i \<and> row_at df k = row_at df i"
proof (induction i rule: less_induct)
  case (less i)
  show ?case
  proof (cases "row_at df i \<in> set (map (row_at df) [0..<i])")
    case True
    then obtain j where j: "j < i" "row_at df j = row_at df i" by auto
    with less.IH [of j] less.prems obtain k where
      "k \<in> set (first_occurrences df)" "k \<le> j" "row_at df k = row_at df j" by auto
    with j show ?thesis by (intro bexI [of _ k]) auto
  next
    case False
    with less.prems have "i \<in> set (first_occurrences df)"
      by (simp add: first_occurrences_def)
    then show ?thesis by blast
  qed
qed

lemma row_at_cell:
  assumes "(n, s) \<in> set (columns df)" "row_at df k = row_at df i"
  shows "s ! k = s ! i"
proof -
  from assms(1) obtain p where p: "p < length (columns df)" "columns df ! p = (n, s)"
    by (auto simp: in_set_conv_nth)
  have "row_at df k ! p = s ! k" "row_at df i ! p = s ! i"
    using p by (simp_all add: row_at_def)
  with assms(2) show ?thesis by simp
qed

lemma columns_take_rows:
  "columns (take_rows keep df) = map (\<lambda>(n, s). (n, map (\<lambda>i. s ! i) keep)) (columns df)"
  by (simp add: take_rows_def)

lemma nrows_take_rows: "nrows (take_rows keep df) = length keep"
  by (simp add: take_rows_def nrows_def)

lemma columns_reset_index: "columns (reset_index df) = columns df"
  by (simp add: reset_index_def)

lemma nrows_reset_index: "nrows (reset_index df) = nrows df"
  by (simp add: reset_index_def nrows_def)

lemma col_names_take_rows: "col_names (take_rows keep df) = col_names df"
  by (simp add: col_names_def columns_take_rows split_def)

lemma wf_take_rows: "wf_dataframe df \<Longrightarrow> wf_dataframe (take_rows keep df)"
  by (auto simp: wf_dataframe_def col_names_take_rows nrows_take_rows columns_take_rows
      list_all_iff)

lemma wf_drop_duplicates: "wf_dataframe df \<Longrightarrow> wf_dataframe (drop_duplicates df)"
  by (simp add: drop_duplicates_def wf_take_rows)

lemma wf_reset_index: "wf_dataframe df \<Longrightarrow> wf_dataframe (reset_index df)"
  by (simp add: wf_dataframe_def col_names_def columns_reset_index nrows_reset_index)

lemma col_names_drop_duplicates: "col_names (drop_duplicates df) = col_names df"
  by (simp add: drop_duplicates_def col_names_take_rows)

lemma wf_column_length:
  "wf_dataframe df \<Longrightarrow> (n, s) \<in> set (columns df) \<Longrightarrow> length s = nrows df"
  by (auto simp: wf_dataframe_def list_all_iff)

lemma take_rows_keeps_value:
  assumes wf: "wf_dataframe df" and col: "(n, s) \<in> set (columns df)"
    and val: "\<not> list_all isnull s"
  shows "\<not> list_all isnull (map (\<lambda>i. s ! i) (first_occurrences df))"
proof -
  from val obtain i where i: "i < length s" "\<not> isnull (s ! i)"
    by (auto simp: list_all_length)
  then have "i < nrows df" using wf_column_length [OF wf col] by simp
  from first_occurrence_exists [OF this] obtain k where
    k: "k \<in> set (first_occurrences df)" "row_at df k = row_at df i" by blast
  have "s ! k = s ! i" using row_at_cell [OF col k(2)] .
  with i have "\<not> isnull (s ! k)" by simp
  with k(1) show ?thesis by (auto simp: list_all_iff)
qed

lemma drop_duplicates_keeps_value:
  assumes wf: "wf_dataframe df"
    and all: "\<forall>(n, s)\<in>set (columns df). \<not> list_all isnull s"
    and col: "(n, s) \<in> set (columns (drop_duplicates df))"
  shows "\<not> list_all isnull s"
proof (cases "df_empty df")
  case True
  then show ?thesis using all col by (auto simp: drop_duplicates_def)
next
  case False
  with col obtain s0 where s0: "(n, s0) \<in> set (columns df)"
      "s = map (\<lambda>i. s0 ! i) (first_occurrences df)"
    by (auto simp: drop_duplicates_first_occurrences columns_take_rows)
  with all have "\<not> list_all isnull s0" by auto
  then show ?thesis using take_rows_keeps_value [OF wf s0(1)] s0(2) by simp
qed

subsection \<open>Stage 3\<close>

lemma columns_update_cols:
  "columns (update_cols names f df) =
     map (\<lambda>(n, s). if n \<in> set names then (n, f s) else (n, s)) (columns df)"
  by (simp add: update_cols_def)

lemma update_cols_guard:
  "(if names \<noteq> [] then update_cols names f df else df) = update_cols names f df"
  by (cases "names = []") (simp_all add: update_cols_def split_def)

lemma columns_map_cols: "columns (map_cols f df) = map (\<lambda>(n, s). (n, f s)) (columns df)"
  by (simp add: map_cols_def)

lemma index_handle_missing: "index (handle_missing df) = index df"
  by (simp add: handle_missing_def Let_def update_cols_guard map_cols_def update_cols_def)

lemma columns_handle_missing:
  "columns (handle_missing df) = map (\<lambda>(n, s). (n, column_after_missing df n s)) (columns df)"
  by (simp add: handle_missing_def Let_def update_cols_guard columns_map_cols
      columns_update_cols column_after_missing_def split_def)

lemma fillna_keeps_value: "\<not> list_all isnull s \<Longrightarrow> \<not> list_all isnull (fillna v s)"
  by (induction s) (auto simp: fillna_def)

lemma length_fillna: "length (fillna v s) = length s"
  by (simp add: fillna_def)

lemma fill_median_keeps_value: "\<not> list_all isnull s \<Longrightarrow> \<not> list_all isnull (fill_median s)"
  by (simp add: fill_median_def fillna_keeps_value split: option.splits)

lemma fill_mode_keeps_value: "\<not> list_all isnull s \<Longrightarrow> \<not> list_all isnull (fill_mode s)"
  by (auto simp: fill_mode_def Let_def fillna_keeps_value)

lemma length_ffill_from: "length (ffill_from prev s) = length s"
  by (induction s arbitrary: prev) auto

lemma length_bfill: "length (bfill s) = length s"
  by (induction s) (auto simp: Let_def)

lemma ffill_from_nonempty: "ffill_from prev s = [] \<longleftrightarrow> s = []"
  by (cases s) auto

lemma ffill_from_last:
  "s \<noteq> [] \<Longrightarrow> \<not> isnull prev \<or> \<not> list_all isnull s \<Longrightarrow>
   \<not> isnull (last (ffill_from prev s))"
proof (induction s arbitrary: prev)
  case Nil
  then show ?case by simp
next
  case (Cons c cs)
  show ?case
  proof (cases "cs = []")
    case True
    with Cons.prems show ?thesis by auto
  next
    case False
    have "ffill_from prev (c # cs) \<noteq> []" by simp
    show ?thesis
    proof (cases "isnull c")
      case True
      with Cons.prems have "\<not> isnull prev \<or> \<not> list_all isnull cs" by auto
      from Cons.IH [OF False this] show ?thesis using True False
        by (simp add: ffill_from_nonempty)
    next
      case c: False
      then have "\<not> isnull c \<or> \<not> list_all isnull cs" by simp
      from Cons.IH [OF False this] show ?thesis using c False
        by (simp add: ffill_from_nonempty)
    qed
  qed
qed

lemma bfill_nonempty: "bfill s = [] \<longleftrightarrow> s = []"
  by (cases s) (auto simp: Let_def)

lemma bfill_no_nulls:
  "s \<noteq> [] \<Longrightarrow> \<not> isnull (last s) \<Longrightarrow> list_all (\<lambda>c. \<not> isnull c) (bfill s)"
proof (induction s)
  case Nil
  then show ?case by simp
next
  case (Cons c cs)
  show ?case
  proof (cases "cs = []")
    case True
    with Cons.prems show ?thesis by (simp add: Let_def)
  next
    case False
    with Cons have tl: "list_all (\<lambda>c. \<not> isnull c) (bfill cs)" by simp
    from False obtain x xs where x: "bfill cs = x # xs"
      using bfill_nonempty [of cs] by (cases "bfill cs") auto
    with tl have "\<not> isnull x" by simp
    with tl x show ?thesis by (simp add: Let_def)
  qed
qed

lemma bfill_ffill_no_nulls:
  "\<not> list_all isnull s \<Longrightarrow> list_all (\<lambda>c. \<not> isnull c) (bfill (ffill s))"
proof -
  assume v: "\<not> list_all isnull s"
  then have ne: "s \<noteq> []" by auto
  then have "ffill s \<noteq> []" by (simp add: ffill_def ffill_from_nonempty)
  moreover have "\<not> isnull (last (ffill s))"
    unfolding ffill_def using ffill_from_last [OF ne, of Null] v by simp
  ultimately show ?thesis by (rule bfill_no_nulls)
qed

lemma column_after_missing_no_nulls:
  "\<not> list_all isnull s \<Longrightarrow> list_all (\<lambda>c. \<not> isnull c) (column_after_missing df n s)"
  unfolding column_after_missing_def Let_def
  by (intro bfill_ffill_no_nulls) (simp add: fill_median_keeps_value fill_mode_keeps_value)

lemma handle_missing_no_nulls:
  assumes "\<forall>(n, s)\<in>set (columns df). \<not> list_all isnull s"
  shows "no_nulls (handle_missing df)"
proof -
  have "list_all (\<lambda>c. \<not> isnull c) (column_after_missing df n s)"
    if "(n, s) \<in> set (columns df)" for n s
    using that assms by (intro column_after_missing_no_nulls) auto
  then show ?thesis
    by (auto simp: no_nulls_def columns_handle_missing list_all_iff)
qed

lemma no_nulls_null_count: "no_nulls df \<Longrightarrow> null_count df = 0"
  by (auto simp: no_nulls_def null_count_def list_all_iff filter_empty_conv)

section \<open>The pipeline as a whole\<close>

lemma preprocess_excel_Inr:
  assumes "preprocess_excel df = Inr (t, st)"
  shows "\<not> df_empty df"
    and "t = normalize_columns (handle_missing (deduplicated df))"
    and "missing_values_before st = null_count df"
    and "missing_values_after st = null_count (handle_missing (deduplicated df))"
    and "duplicates_removed st =
           int (length (filter (\<lambda>b. b) (duplicated (dropna_all_null_columns df))))"
    and "null_columns_removed st = int (ncols df) - int (ncols (dropna_all_null_columns df))"
    and "original_rows st = int (nrows df)"
    and "original_columns st = int (ncols df)"
    and "processed_rows st = int (nrows t)"
    and "processed_columns st = int (ncols t)"
  using assms
  by (auto simp: preprocess_excel_def Let_def deduplicated_def split: if_splits)

lemma preprocess_excel_total:
  "\<not> df_empty df \<Longrightarrow> \<exists>t st. preprocess_excel df = Inr (t, st)"
  by (simp add: preprocess_excel_def Let_def)

lemma preprocess_excel_Inl: "preprocess_excel df = Inl e \<longleftrightarrow> df_empty df \<and> e = Empty_file"
  by (auto simp: preprocess_excel_def Let_def)

lemma wf_deduplicated: "wf_dataframe df \<Longrightarrow> wf_dataframe (deduplicated df)"
  by (simp add: deduplicated_def wf_reset_index wf_drop_duplicates wf_dropna)

lemma deduplicated_has_values:
  assumes "wf_dataframe df" "(n, s) \<in> set (columns (deduplicated df))"
  shows "\<not> list_all isnull s"
proof -
  have "\<forall>(n, s)\<in>set (columns (dropna_all_null_columns df)). \<not> list_all isnull s"
    using dropna_has_value by blast
  from drop_duplicates_keeps_value [OF wf_dropna [OF assms(1)] this] assms(2)
  show ?thesis by (simp add: deduplicated_def columns_reset_index)
qed

lemma handled_no_nulls:
  "wf_dataframe df \<Longrightarrow> no_nulls (handle_missing (deduplicated df))"
  by (rule handle_missing_no_nulls) (use deduplicated_has_values in blast)

lemma no_nulls_normalize_columns: "no_nulls (normalize_columns df) = no_nulls df"
  by (simp add: no_nulls_def normalize_columns_def list_all_iff split_def)

lemma null_count_normalize_columns: "null_count (normalize_columns df) = null_count df"
  by (simp add: null_count_def normalize_columns_def split_def comp_def)

lemma null_count_nonneg: "0 \<le> null_count df"
  by (simp add: null_count_def)

section \<open>Failure on empty input\<close>

text \<open>
  C3, as stated, fails: the pipeline rejects a frame when \<^verbatim>\<open>df.empty\<close> holds, that is when
  it has zero rows or zero columns.  A sheet with a header and no data rows has one
  column, so it does not have "zero rows and zero columns", and is rejected all the same.
\<close>

theorem empty_input_failure_counterexample:
  "preprocess_excel header_only_frame = Inl Empty_file
   \<and> \<not> (nrows header_only_frame = 0 \<and> ncols header_only_frame = 0)"
  by (simp add: preprocess_excel_def header_only_frame_def df_empty_def nrows_def ncols_def)

text \<open>
  C3, amended. The pipeline fails with the empty-file error exactly when the input frame
  has zero rows or zero columns; every other well-formed frame yields a cleaned frame
  with its report; a failure is the empty-file error alone, with no cleaned output.
\<close>

theorem empty_input_failure:
  "wf_dataframe df \<Longrightarrow>
   (preprocess_excel df = Inl Empty_file \<longleftrightarrow> nrows df = 0 \<or> ncols df = 0)
   \<and> (\<not> (nrows df = 0 \<or> ncols df = 0) \<longrightarrow> (\<exists>t st. preprocess_excel df = Inr (t, st)))
   \<and> (\<forall>e. preprocess_excel df = Inl e \<longrightarrow> e = Empty_file)"
  using preprocess_excel_total [of df]
  by (auto simp: preprocess_excel_Inl df_empty_def)

theorem empty_input_failure_witness:
  "wf_dataframe scenario_frame
   \<and> \<not> (nrows scenario_frame = 0 \<or> ncols scenario_frame = 0)
   \<and> preprocess_excel scenario_frame \<noteq> Inl Empty_file
   \<and> preprocess_excel scenario_frame = Inr (scenario_cleaned, scenario_report)"
proof -
  have wf: "wf_dataframe scenario_frame" by code_simp
  have ne: "\<not> (nrows scenario_frame = 0 \<or> ncols scenario_frame = 0)" by code_simp
  have run: "preprocess_excel scenario_frame = Inr (scenario_cleaned, scenario_report)"
    by code_simp
  from empty_input_failure [OF wf] ne
  have "preprocess_excel scenario_frame \<noteq> Inl Empty_file" by blast
  with wf ne run show ?thesis by blast
qed

section \<open>Null cells after cleaning\<close>

text \<open>
  C10. For every non-empty well-formed frame that the pipeline accepts, the cleaned frame
  has no null cell and \<open>missing_values_after\<close> is 0: every column that survives stage 1
  keeps a non-null cell through stage 2, and forward fill followed by backward fill
  leaves no null in such a column.
\<close>

theorem no_nulls_after_cleaning:
  assumes "wf_dataframe df" "preprocess_excel df = Inr (t, st)"
  shows "missing_values_after st = 0 \<and> no_nulls t \<and> null_count t = 0"
proof -
  note r = preprocess_excel_Inr [OF assms(2)]
  have nn: "no_nulls (handle_missing (deduplicated df))"
    using handled_no_nulls [OF assms(1)] .
  then have "no_nulls t" by (simp add: r(2) no_nulls_normalize_columns)
  moreover have "missing_values_after st = 0"
    using no_nulls_null_count [OF nn] by (simp add: r(4))
  moreover have "null_count t = 0"
    using no_nulls_null_count [OF nn] by (simp add: r(2) null_count_normalize_columns)
  ultimately show ?thesis by simp
qed

theorem no_nulls_after_cleaning_witness:
  "wf_dataframe scenario_frame
   \<and> preprocess_excel scenario_frame = Inr (scenario_cleaned, scenario_report)
   \<and> missing_values_after scenario_report = 0 \<and> no_nulls scenario_cleaned
   \<and> null_count scenario_cleaned = 0"
proof -
  have wf: "wf_dataframe scenario_frame" by code_simp
  have run: "preprocess_excel scenario_frame = Inr (scenario_cleaned, scenario_report)"
    by code_simp
  from no_nulls_after_cleaning [OF wf run] wf run show ?thesis by blast
qed

text \<open>
  C4. For every non-empty well-formed frame that the pipeline accepts,
  \<open>missing_values_after \<le> missing_values_before\<close>, where the latter counts the null cells
  of the original frame and the former those of the frame after stage 3.
\<close>

theorem missing_after_le_before:
  assumes "wf_dataframe df" "preprocess_excel df = Inr (t, st)"
  shows "missing_values_after st \<le> missing_values_before st
         \<and> missing_values_before st = null_count df
         \<and> missing_values_after st = null_count (handle_missing (deduplicated df))"
proof -
  note r = preprocess_excel_Inr [OF assms(2)]
  have "null_count (handle_missing (deduplicated df)) = 0"
    using no_nulls_null_count [OF handled_no_nulls [OF assms(1)]] .
  then show ?thesis using null_count_nonneg [of df] by (simp add: r(3) r(4))
qed

theorem missing_after_le_before_witness:
  "wf_dataframe scenario_frame
   \<and> preprocess_excel scenario_frame = Inr (scenario_cleaned, scenario_report)
   \<and> missing_values_after scenario_report \<le> missing_values_before scenario_report
   \<and> missing_values_before scenario_report = 4"
proof -
  have wf: "wf_dataframe scenario_frame" by code_simp
  have run: "preprocess_excel scenario_frame = Inr (scenario_cleaned, scenario_report)"
    by code_simp
  have mb: "missing_values_before scenario_report = 4" by (simp add: scenario_report_def)
  from missing_after_le_before [OF wf run] wf run mb show ?thesis by blast
qed

section \<open>Duplicate rows\<close>

lemma row_at_eq_iff:
  "row_at df i = row_at df j \<longleftrightarrow> list_all (\<lambda>(n, s). s ! i = s ! j) (columns df)"
  by (auto simp: row_at_def list_all_iff)

lemma earlier_row_iff: "r \<in> set (map (row_at df) [0..<i]) \<longleftrightarrow> (\<exists>j<i. row_at df j = r)"
  by (auto simp: image_iff)

lemma duplicated_iff:
  "\<not> df_empty df \<Longrightarrow> i < nrows df \<Longrightarrow>
   duplicated df ! i \<longleftrightarrow> (\<exists>j<i. row_at df j = row_at df i)"
  by (metis duplicated_nth earlier_row_iff)

lemma first_occurrences_iff:
  "\<not> df_empty df \<Longrightarrow> i < nrows df \<Longrightarrow>
   i \<in> set (first_occurrences df) \<longleftrightarrow> \<not> duplicated df ! i"
  by (simp add: first_occurrences_def duplicated_nth)

lemma first_occurrences_sorted: "sorted_wrt (<) (first_occurrences df)"
  unfolding first_occurrences_def by (rule sorted_wrt_filter) simp

lemma first_occurrences_distinct: "distinct (first_occurrences df)"
  by (simp add: first_occurrences_def)

lemma row_at_take_rows:
  "k < length keep \<Longrightarrow> row_at (take_rows keep df) k = row_at df (keep ! k)"
  by (simp add: row_at_def columns_take_rows split_def comp_def)

lemma row_at_reset_index: "row_at (reset_index df) k = row_at df k"
  by (simp add: row_at_def columns_reset_index)

lemma rows_of_take_rows: "rows_of (take_rows keep df) = map (row_at df) keep"
proof -
  have "map (row_at (take_rows keep df)) [0..<length keep]
          = map (\<lambda>k. row_at df (keep ! k)) [0..<length keep]"
    by (rule map_cong) (simp_all add: row_at_take_rows)
  also have "\<dots> = map (row_at df) (map (\<lambda>k. keep ! k) [0..<length keep])"
    by (simp add: comp_def)
  also have "\<dots> = map (row_at df) keep" by (simp add: map_nth)
  finally show ?thesis by (simp add: rows_of_def nrows_take_rows)
qed

lemma rows_of_reset_index: "rows_of (reset_index df) = rows_of df"
  by (simp add: rows_of_def nrows_reset_index row_at_reset_index)

lemma index_reset_index: "index (reset_index df) = [0..<nrows (reset_index df)]"
  by (simp add: reset_index_def nrows_def)

lemma rows_after_drop_duplicates:
  "\<not> df_empty df \<Longrightarrow>
   rows_of (reset_index (drop_duplicates df)) = map (row_at df) (first_occurrences df)"
  by (simp add: rows_of_reset_index drop_duplicates_first_occurrences rows_of_take_rows)

lemma nrows_after_drop_duplicates:
  "\<not> df_empty df \<Longrightarrow>
   nrows (reset_index (drop_duplicates df)) = length (first_occurrences df)"
  by (simp add: nrows_reset_index drop_duplicates_first_occurrences nrows_take_rows)

lemma first_occurrences_inj: "inj_on (row_at df) (set (first_occurrences df))"
proof (rule inj_onI)
  fix i j
  assume i: "i \<in> set (first_occurrences df)" and j: "j \<in> set (first_occurrences df)"
    and eq: "row_at df i = row_at df j"
  have "\<not> i < j"
    using j eq earlier_row_iff [of "row_at df j" df j] by (auto simp: first_occurrences_def)
  moreover have "\<not> j < i"
    using i eq earlier_row_iff [of "row_at df i" df i] by (auto simp: first_occurrences_def)
  ultimately show "i = j" by simp
qed

lemma rows_after_drop_duplicates_distinct:
  "\<not> df_empty df \<Longrightarrow> distinct (rows_of (reset_index (drop_duplicates df)))"
  by (simp add: rows_after_drop_duplicates distinct_map first_occurrences_distinct
      first_occurrences_inj)

lemma rows_after_drop_duplicates_set:
  "\<not> df_empty df \<Longrightarrow> set (rows_of (reset_index (drop_duplicates df))) = set (rows_of df)"
proof -
  assume ne: "\<not> df_empty df"
  have "row_at df ` set (first_occurrences df) = row_at df ` {0..<nrows df}"
  proof
    show "row_at df ` set (first_occurrences df) \<subseteq> row_at df ` {0..<nrows df}"
      using first_occurrences_bound by fastforce
    show "row_at df ` {0..<nrows df} \<subseteq> row_at df ` set (first_occurrences df)"
    proof
      fix r assume "r \<in> row_at df ` {0..<nrows df}"
      then obtain i where i: "i < nrows df" "r = row_at df i" by auto
      from first_occurrence_exists [OF i(1)] obtain k where
        "k \<in> set (first_occurrences df)" "row_at df k = row_at df i" by blast
      with i(2) show "r \<in> row_at df ` set (first_occurrences df)"
        by (simp add: image_iff) metis
    qed
  qed
  then show ?thesis
    by (simp only: rows_after_drop_duplicates [OF ne]) (simp add: rows_of_def)
qed

lemma duplicated_count:
  assumes ne: "\<not> df_empty df"
  shows "int (length (filter (\<lambda>b. b) (duplicated df)))
           = int (nrows df) - int (nrows (reset_index (drop_duplicates df)))"
proof -
  let ?P = "\<lambda>i. row_at df i \<in> set (map (row_at df) [0..<i])"
  have "length (filter (\<lambda>b. b) (duplicated df)) = length (filter ?P [0..<nrows df])"
    using ne by (simp add: duplicated_def filter_map comp_def)
  moreover have "length (filter ?P [0..<nrows df]) + length (first_occurrences df) = nrows df"
    unfolding first_occurrences_def
    using sum_length_filter_compl [of ?P "[0..<nrows df]"] by simp
  ultimately show ?thesis by (simp add: nrows_after_drop_duplicates [OF ne])
qed

lemma df_empty_dropna:
  "\<not> df_empty df \<Longrightarrow> ncols (dropna_all_null_columns df) \<noteq> 0 \<Longrightarrow>
   \<not> df_empty (dropna_all_null_columns df)"
  by (simp add: df_empty_def nrows_dropna)

lemma nrows_handle_missing: "nrows (handle_missing df) = nrows df"
  by (simp add: nrows_def index_handle_missing)

lemma nrows_normalize_columns: "nrows (normalize_columns df) = nrows df"
  by (simp add: nrows_def normalize_columns_def)

text \<open>
  C6, as stated, fails when no column survives stage 1: all rows then agree on every
  (non-existent) cell, yet pandas' \<^verbatim>\<open>duplicated\<close> and \<^verbatim>\<open>drop_duplicates\<close> return at once on
  an empty frame, so both rows stay and no duplicate is counted.
\<close>

theorem duplicate_rows_removed_counterexample:
  "row_at (dropna_all_null_columns all_null_frame) 0
     = row_at (dropna_all_null_columns all_null_frame) 1
   \<and> rows_of (deduplicated all_null_frame) = [[], []]
   \<and> duplicated (dropna_all_null_columns all_null_frame) = []"
  by code_simp

lemma rows_after_stage_two:
  assumes "wf_dataframe df" and "preprocess_excel df = Inr (t, st)"
    and "ncols (dropna_all_null_columns df) \<noteq> 0"
  shows
    "(let df1 = dropna_all_null_columns df; out = deduplicated df in
       (\<forall>i j. row_at df1 i = row_at df1 j
                \<longleftrightarrow> list_all (\<lambda>(n, s). s ! i = s ! j) (columns df1))
       \<and> (\<forall>i<nrows df1. duplicated df1 ! i \<longleftrightarrow> (\<exists>j<i. row_at df1 j = row_at df1 i))
       \<and> (\<forall>i<nrows df1. i \<in> set (first_occurrences df1) \<longleftrightarrow> \<not> duplicated df1 ! i)
       \<and> sorted_wrt (<) (first_occurrences df1)
       \<and> rows_of out = map (row_at df1) (first_occurrences df1)
       \<and> distinct (rows_of out)
       \<and> set (rows_of out) = set (rows_of df1)
       \<and> index out = [0..<nrows out]
       \<and> duplicates_removed st = int (nrows df1) - int (nrows out)
       \<and> original_rows st = int (nrows df1)
       \<and> processed_rows st = int (nrows out))"
proof -
  note r = preprocess_excel_Inr [OF assms(2)]
  let ?df1 = "dropna_all_null_columns df"
  have ne: "\<not> df_empty ?df1" using df_empty_dropna [OF r(1) assms(3)] .
  have 1: "\<forall>i j. row_at ?df1 i = row_at ?df1 j
                \<longleftrightarrow> list_all (\<lambda>(n, s). s ! i = s ! j) (columns ?df1)"
    using row_at_eq_iff by blast
  have 2: "\<forall>i<nrows ?df1. duplicated ?df1 ! i \<longleftrightarrow> (\<exists>j<i. row_at ?df1 j = row_at ?df1 i)"
    using duplicated_iff [OF ne] by blast
  have 3: "\<forall>i<nrows ?df1. i \<in> set (first_occurrences ?df1) \<longleftrightarrow> \<not> duplicated ?df1 ! i"
    using first_occurrences_iff [OF ne] by blast
  have 4: "rows_of (deduplicated df) = map (row_at ?df1) (first_occurrences ?df1)"
    unfolding deduplicated_def using rows_after_drop_duplicates [OF ne] .
  have 5: "distinct (rows_of (deduplicated df))"
    unfolding deduplicated_def using rows_after_drop_duplicates_distinct [OF ne] .
  have 6: "set (rows_of (deduplicated df)) = set (rows_of ?df1)"
    unfolding deduplicated_def using rows_after_drop_duplicates_set [OF ne] .
  have 7: "index (deduplicated df) = [0..<nrows (deduplicated df)]"
    unfolding deduplicated_def by (rule index_reset_index)
  have 8: "duplicates_removed st = int (nrows ?df1) - int (nrows (deduplicated df))"
    unfolding deduplicated_def r(5) using duplicated_count [OF ne] .
  have 9: "original_rows st = int (nrows ?df1)" by (simp add: r(7) nrows_dropna)
  have 10: "processed_rows st = int (nrows (deduplicated df))"
    by (simp add: r(9) r(2) nrows_normalize_columns nrows_handle_missing)
  show ?thesis
    unfolding Let_def using 1 2 3 4 5 6 7 8 9 10 first_occurrences_sorted [of ?df1]
    by blast
qed

lemma no_column_no_duplicates:
  assumes "preprocess_excel df = Inr (t, st)" and "ncols (dropna_all_null_columns df) = 0"
  shows "duplicates_removed st = 0 \<and> processed_rows st = original_rows st"
proof -
  note r = preprocess_excel_Inr [OF assms(1)]
  let ?df1 = "dropna_all_null_columns df"
  have e: "df_empty ?df1" using assms(2) by (simp add: df_empty_def)
  then have "duplicated ?df1 = []" by (simp add: duplicated_def)
  then have "duplicates_removed st = 0" by (simp add: r(5))
  moreover have "nrows (deduplicated df) = nrows df"
    using e by (simp add: deduplicated_def nrows_reset_index drop_duplicates_def nrows_dropna)
  then have "processed_rows st = original_rows st"
    by (simp add: r(7) r(9) r(2) nrows_normalize_columns nrows_handle_missing)
  ultimately show ?thesis by simp
qed

text \<open>
  C6, amended. When at least one column survives stage 1, stage 2 behaves as claimed on
  the frame \<open>df1\<close> that stage 1 hands over: two rows are equal exactly when all their
  cells agree (null agreeing with null); a row is a duplicate exactly when an earlier row
  equals it; the surviving rows are the first occurrences, in their original order, and
  are pairwise distinct; the row labels are renumbered 0, 1, 2, ...; and
  \<open>duplicates_removed\<close> is the number of rows dropped.  When no column survives, no row
  is dropped and \<open>duplicates_removed\<close> is 0.
\<close>

theorem duplicate_rows_removed:
  assumes "wf_dataframe df" and "preprocess_excel df = Inr (t, st)"
  shows
    "(ncols (dropna_all_null_columns df) \<noteq> 0 \<longrightarrow>
      (let df1 = dropna_all_null_columns df; out = deduplicated df in
       (\<forall>i j. row_at df1 i = row_at df1 j
                \<longleftrightarrow> list_all (\<lambda>(n, s). s ! i = s ! j) (columns df1))
       \<and> (\<forall>i<nrows df1. duplicated df1 ! i \<longleftrightarrow> (\<exists>j<i. row_at df1 j = row_at df1 i))
       \<and> (\<forall>i<nrows df1. i \<in> set (first_occurrences df1) \<longleftrightarrow> \<not> duplicated df1 ! i)
       \<and> sorted_wrt (<) (first_occurrences df1)
       \<and> rows_of out = map (row_at df1) (first_occurrences df1)
       \<and> distinct (rows_of out)
       \<and> set (rows_of out) = set (rows_of df1)
       \<and> index out = [0..<nrows out]
       \<and> duplicates_removed st = int (nrows df1) - int (nrows out)
       \<and> original_rows st = int (nrows df1)
       \<and> processed_rows st = int (nrows out)))
     \<and> (ncols (dropna_all_null_columns df) = 0 \<longrightarrow>
          duplicates_removed st = 0 \<and> processed_rows st = original_rows st)"
  using rows_after_stage_two [OF assms] no_column_no_duplicates [OF assms(2)] by blast

theorem duplicate_rows_removed_witness:
  "wf_dataframe three_rows_frame
   \<and> preprocess_excel three_rows_frame = Inr (three_rows_cleaned, three_rows_report)
   \<and> ncols (dropna_all_null_columns three_rows_frame) \<noteq> 0
   \<and> rows_of (deduplicated three_rows_frame) = [[Text ''a'', Num 1], [Text ''b'', Num 2]]
   \<and> index (deduplicated three_rows_frame) = [0, 1]
   \<and> duplicates_removed three_rows_report = 1
   \<and> processed_rows three_rows_report = 2"
proof -
  have wf: "wf_dataframe three_rows_frame" by code_simp
  have run: "preprocess_excel three_rows_frame = Inr (three_rows_cleaned, three_rows_report)"
    by code_simp
  have nc: "ncols (dropna_all_null_columns three_rows_frame) \<noteq> 0" by code_simp
  have first: "map (row_at (dropna_all_null_columns three_rows_frame))
                 (first_occurrences (dropna_all_null_columns three_rows_frame))
               = [[Text ''a'', Num 1], [Text ''b'', Num 2]]"
    by code_simp
  have n1: "nrows (dropna_all_null_columns three_rows_frame) = 3" by code_simp
  have n2: "nrows (deduplicated three_rows_frame) = 2" by code_simp
  have ix: "[0..<(2::nat)] = [0, 1]" by code_simp
  from duplicate_rows_removed [OF wf run] nc first n1 n2 ix
  have "rows_of (deduplicated three_rows_frame) = [[Text ''a'', Num 1], [Text ''b'', Num 2]]
        \<and> index (deduplicated three_rows_frame) = [0, 1]
        \<and> duplicates_removed three_rows_report = 1
        \<and> processed_rows three_rows_report = 2"
    by (simp add: Let_def)
  with wf run nc show ?thesis by blast
qed

section \<open>Column names\<close>

lemma col_names_reset_index: "col_names (reset_index df) = col_names df"
  by (simp add: col_names_def columns_reset_index)

lemma col_names_dropna_subset:
  "col_names (dropna_all_null_columns df)
     = map fst (filter (\<lambda>(n, s). \<not> list_all isnull s) (columns df))"
  by (simp add: col_names_def columns_dropna)

lemma col_names_deduplicated:
  "col_names (deduplicated df) = col_names (dropna_all_null_columns df)"
  by (simp add: deduplicated_def col_names_reset_index col_names_drop_duplicates)

lemma col_names_handle_missing: "col_names (handle_missing df) = col_names df"
  by (simp add: col_names_def columns_handle_missing split_def comp_def)

lemma col_names_normalize_columns:
  "col_names (normalize_columns df) = map normalize_name (col_names df)"
  by (simp add: col_names_def normalize_columns_def split_def comp_def)

lemma cleaned_col_names:
  "preprocess_excel df = Inr (t, st) \<Longrightarrow>
   col_names t = map normalize_name (col_names (dropna_all_null_columns df))"
  using preprocess_excel_Inr(2) [of df t st]
  by (simp add: col_names_normalize_columns col_names_handle_missing col_names_deduplicated)

lemma of_char_lower_char:
  "(of_char (py_lower_char c) :: nat) =
     (let k = of_char c
      in if (65 \<le> k \<and> k \<le> 90) \<or> (192 \<le> k \<and> k \<le> 222 \<and> k \<noteq> 215) then k + 32 else k)"
  by (auto simp: py_lower_char_def Let_def)

lemma py_lower_char_fixed:
  "\<not> ((65 \<le> (of_char x :: nat) \<and> (of_char x :: nat) \<le> 90)
       \<or> (192 \<le> (of_char x :: nat) \<and> (of_char x :: nat) \<le> 222 \<and> (of_char x :: nat) \<noteq> 215))
   \<Longrightarrow> py_lower_char x = x"
  unfolding py_lower_char_def Let_def by (rule if_not_P)

lemma py_lower_char_idem: "py_lower_char (py_lower_char c) = py_lower_char c"
  by (rule py_lower_char_fixed) (auto simp: of_char_lower_char Let_def)

lemma py_lower_char_space: "py_isspace (py_lower_char c) \<longleftrightarrow> py_isspace c"
  unfolding py_isspace_def of_char_lower_char Let_def by auto

lemma py_lstrip_hd: "py_lstrip s \<noteq> [] \<Longrightarrow> \<not> py_isspace (hd (py_lstrip s))"
  unfolding py_lstrip_def by (rule hd_dropWhile)

lemma py_rstrip_last: "py_rstrip s \<noteq> [] \<Longrightarrow> \<not> py_isspace (last (py_rstrip s))"
  unfolding py_rstrip_def
  by (metis hd_dropWhile last_rev rev_is_Nil_conv)

lemma py_rstrip_hd:
  "s \<noteq> [] \<Longrightarrow> \<not> py_isspace (hd s) \<Longrightarrow> py_rstrip s \<noteq> [] \<and> hd (py_rstrip s) = hd s"
proof (induction s rule: rev_induct)
  case Nil
  then show ?case by simp
next
  case (snoc x xs)
  show ?case
  proof (cases "py_isspace x")
    case True
    with snoc.prems have "xs \<noteq> []" by (cases xs) auto
    moreover from this snoc.prems have "\<not> py_isspace (hd xs)" by simp
    ultimately have "py_rstrip xs \<noteq> [] \<and> hd (py_rstrip xs) = hd xs" by (rule snoc.IH)
    moreover have "py_rstrip (xs @ [x]) = py_rstrip xs" using True by (simp add: py_rstrip_def)
    ultimately show ?thesis using \<open>xs \<noteq> []\<close> by simp
  next
    case False
    then show ?thesis by (simp add: py_rstrip_def)
  qed
qed

lemma py_strip_ends:
  assumes "py_strip s \<noteq> []"
  shows "\<not> py_isspace (hd (py_strip s)) \<and> \<not> py_isspace (last (py_strip s))"
proof -
  have ne: "py_lstrip s \<noteq> []" using assms by (auto simp: py_strip_def py_rstrip_def)
  have "\<not> py_isspace (hd (py_lstrip s))" using py_lstrip_hd [OF ne] .
  with py_rstrip_hd [OF ne] have "\<not> py_isspace (hd (py_strip s))"
    by (simp add: py_strip_def)
  moreover have "\<not> py_isspace (last (py_strip s))"
    using assms py_rstrip_last [of "py_lstrip s"] by (simp add: py_strip_def)
  ultimately show ?thesis by simp
qed

lemma space_is_space: "py_isspace CHR '' ''"
  by (simp add: py_isspace_def)

lemma underscore_not_space: "\<not> py_isspace CHR ''_''"
  by (simp add: py_isspace_def)

lemma normalize_name_no_space: "CHR '' '' \<notin> set (normalize_name n)"
proof
  assume "CHR '' '' \<in> set (normalize_name n)"
  then obtain c where c: "c \<in> set (replace_space (py_strip n))" "py_lower_char c = CHR '' ''"
    by (auto simp: normalize_name_def py_lower_def)
  from c(2) have "py_isspace c" using py_lower_char_space [of c] space_is_space by simp
  moreover have "c \<noteq> CHR '' ''" using c(1) by (auto simp: replace_space_def split: if_splits)
  ultimately have "py_lower_char c = c"
    by (auto simp: py_lower_char_def py_isspace_def Let_def)
  with c(2) \<open>c \<noteq> CHR '' ''\<close> show False by simp
qed

lemma normalize_name_lower: "c \<in> set (normalize_name n) \<Longrightarrow> py_lower_char c = c"
  by (auto simp: normalize_name_def py_lower_def py_lower_char_idem)

lemma normalize_name_ends:
  assumes "normalize_name n \<noteq> []"
  shows "\<not> py_isspace (hd (normalize_name n)) \<and> \<not> py_isspace (last (normalize_name n))"
proof -
  have ne: "py_strip n \<noteq> []" using assms by (auto simp: normalize_name_def py_lower_def replace_space_def)
  note e = py_strip_ends [OF ne]
  have "hd (normalize_name n) = py_lower_char (if hd (py_strip n) = CHR '' '' then CHR ''_'' else hd (py_strip n))"
    using ne by (simp add: normalize_name_def py_lower_def replace_space_def hd_map)
  moreover have "last (normalize_name n) = py_lower_char (if last (py_strip n) = CHR '' '' then CHR ''_'' else last (py_strip n))"
    using ne by (simp add: normalize_name_def py_lower_def replace_space_def last_map)
  ultimately show ?thesis using e underscore_not_space by (simp add: py_lower_char_space)
qed

lemma normalize_name_length: "length (normalize_name n) = length (py_strip n)"
  by (simp add: normalize_name_def py_lower_def replace_space_def)

text \<open>
  C8. Every column name of the cleaned frame is the name of a column that survived
  stage 1, trimmed of leading and trailing whitespace, with every remaining space turned
  into an underscore, and lower-cased: it contains no space, neither begins nor ends
  with whitespace, and lower-casing leaves each of its characters unchanged.  The name
  \<open>" First Name "\<close> becomes \<open>"first_name"\<close>.
\<close>

theorem column_names_normalized:
  assumes "wf_dataframe df" and "preprocess_excel df = Inr (t, st)"
  shows "col_names t = map normalize_name (col_names (dropna_all_null_columns df))
         \<and> (\<forall>n. normalize_name n = py_lower (replace_space (py_strip n)))
         \<and> list_all (\<lambda>n. CHR '' '' \<notin> set n
                          \<and> (n \<noteq> [] \<longrightarrow> \<not> py_isspace (hd n) \<and> \<not> py_isspace (last n))
                          \<and> list_all (\<lambda>c. py_lower_char c = c) n) (col_names t)
         \<and> normalize_name '' First Name '' = ''first_name''"
proof -
  have names: "col_names t = map normalize_name (col_names (dropna_all_null_columns df))"
    using cleaned_col_names [OF assms(2)] .
  have "list_all (\<lambda>n. CHR '' '' \<notin> set n
                          \<and> (n \<noteq> [] \<longrightarrow> \<not> py_isspace (hd n) \<and> \<not> py_isspace (last n))
                          \<and> list_all (\<lambda>c. py_lower_char c = c) n) (col_names t)"
    unfolding names list_all_iff
    using normalize_name_no_space normalize_name_ends normalize_name_lower by auto
  moreover have "normalize_name '' First Name '' = ''first_name''" by code_simp
  ultimately show ?thesis using names by (simp add: normalize_name_def)
qed

theorem column_names_normalized_witness:
  "wf_dataframe first_name_frame
   \<and> preprocess_excel first_name_frame = Inr (first_name_cleaned, first_name_report)
   \<and> col_names first_name_cleaned = [''first_name'']"
proof -
  have wf: "wf_dataframe first_name_frame" by code_simp
  have run: "preprocess_excel first_name_frame = Inr (first_name_cleaned, first_name_report)"
    by code_simp
  have nm: "col_names (dropna_all_null_columns first_name_frame) = ['' First Name '']"
    by code_simp
  from column_names_normalized [OF wf run]
  have "col_names first_name_cleaned
          = map normalize_name (col_names (dropna_all_null_columns first_name_frame))"
    and "normalize_name '' First Name '' = ''first_name''"
    by blast+
  with nm have "col_names first_name_cleaned = [''first_name'']" by simp
  with wf run show ?thesis by blast
qed

text \<open>
  C9, as stated, fails: the headers \<open>"A B"\<close> and \<open>"a_b"\<close> are distinct, both normalise to
  \<open>"a_b"\<close>, and the cleaned frame carries that name twice.
\<close>

theorem names_unique_counterexample:
  "wf_dataframe colliding_frame
   \<and> preprocess_excel colliding_frame = Inr (colliding_cleaned, colliding_report)
   \<and> \<not> distinct (col_names colliding_cleaned)"
  by code_simp

text \<open>
  C9, amended. For every non-empty well-formed frame that the pipeline accepts, the
  column names of the cleaned frame are the normalised names of the columns surviving
  stage 1, in their order; they are pairwise distinct exactly when no two surviving
  columns have names with the same normalisation.
\<close>

theorem names_unique_iff:
  assumes "wf_dataframe df" and "preprocess_excel df = Inr (t, st)"
  shows "col_names t = map normalize_name (col_names (dropna_all_null_columns df))
         \<and> (distinct (col_names t)
              \<longleftrightarrow> inj_on normalize_name (set (col_names (dropna_all_null_columns df))))"
proof -
  have "distinct (col_names (dropna_all_null_columns df))"
    using wf_dropna [OF assms(1)] by (simp add: wf_dataframe_def)
  then show ?thesis
    using cleaned_col_names [OF assms(2)] by (simp add: distinct_map)
qed

theorem names_unique_iff_witness:
  "wf_dataframe scenario_frame
   \<and> preprocess_excel scenario_frame = Inr (scenario_cleaned, scenario_report)
   \<and> distinct (col_names scenario_cleaned)
   \<and> inj_on normalize_name (set (col_names (dropna_all_null_columns scenario_frame)))"
proof -
  have wf: "wf_dataframe scenario_frame" by code_simp
  have run: "preprocess_excel scenario_frame = Inr (scenario_cleaned, scenario_report)"
    by code_simp
  have d: "distinct (col_names scenario_cleaned)" by code_simp
  from names_unique_iff [OF wf run] d
  have "inj_on normalize_name (set (col_names (dropna_all_null_columns scenario_frame)))"
    by blast
  with wf run d show ?thesis by blast
qed

section \<open>Mode imputation\<close>

lemma set_uniq: "set (uniq xs) = set xs"
  by (induction xs) auto

lemma foldr_max_ge: "k \<in> set ks \<Longrightarrow> f k \<le> foldr max (map f ks) (0::nat)"
  by (induction ks) auto

lemma foldr_max_attained:
  "ks \<noteq> [] \<Longrightarrow> \<exists>k\<in>set ks. f k = foldr max (map f ks) (0::nat)"
proof (induction ks)
  case Nil
  then show ?case by simp
next
  case (Cons k ks)
  show ?case
  proof (cases "ks = []")
    case True
    then show ?thesis by simp
  next
    case False
    with Cons.IH obtain k' where k': "k' \<in> set ks" "f k' = foldr max (map f ks) 0" by blast
    show ?thesis
    proof (cases "f k \<le> f k'")
      case True
      then have "f k' = foldr max (map f (k # ks)) 0" using k'(2) by simp
      with k'(1) show ?thesis by (intro bexI [of _ k']) simp_all
    next
      case False
      then have "f k = foldr max (map f (k # ks)) 0" using k'(2) by simp
      then show ?thesis by (intro bexI [of _ k]) simp_all
    qed
  qed
qed

lemma count_list_filter: "P v \<Longrightarrow> count_list (filter P xs) v = count_list xs v"
  by (induction xs) auto

lemma text_values_all_text:
  "\<forall>c\<in>set xs. \<exists>t. c = Text t \<Longrightarrow> \<exists>ts. text_values xs = Some ts \<and> map Text ts = xs"
proof (induction xs)
  case Nil
  then show ?case by simp
next
  case (Cons c cs)
  then obtain t where t: "c = Text t" by auto
  from Cons obtain ts where "text_values cs = Some ts" "map Text ts = cs" by auto
  with t show ?case by simp
qed

lemma hd_sort_least:
  fixes ts :: "'a::linorder list"
  assumes "ts \<noteq> []"
  shows "hd (sort ts) \<in> set ts \<and> (\<forall>t\<in>set ts. hd (sort ts) \<le> t)"
proof -
  have ne: "sort ts \<noteq> []" using assms by (metis length_sort length_0_conv)
  then obtain x xs where x: "sort ts = x # xs" by (cases "sort ts") auto
  have "sorted (sort ts)" by simp
  then have "sorted (x # xs)" using x by simp
  then have "\<forall>t\<in>set (x # xs). x \<le> t" by auto
  moreover have "set (sort ts) = set ts" by simp
  then have "set (x # xs) = set ts" using x by simp
  ultimately show ?thesis using x by auto
qed

lemma ffill_from_no_nulls: "list_all (\<lambda>c. \<not> isnull c) s \<Longrightarrow> ffill_from prev s = s"
  by (induction s arbitrary: prev) auto

lemma bfill_no_nulls_id: "list_all (\<lambda>c. \<not> isnull c) s \<Longrightarrow> bfill s = s"
  by (induction s) (auto simp: Let_def)

lemma fillna_no_nulls: "\<not> isnull v \<Longrightarrow> list_all (\<lambda>c. \<not> isnull c) (fillna v s)"
  by (induction s) (auto simp: fillna_def)

lemma fill_mode_text_column:
  assumes nonum: "list_all (\<lambda>c. case c of Num x \<Rightarrow> False | _ \<Rightarrow> True) s"
    and val: "\<not> list_all isnull s"
  shows "\<exists>m. Text m \<in> set s
             \<and> (\<forall>v. \<not> isnull v \<longrightarrow> count_list s v \<le> count_list s (Text m))
             \<and> (\<forall>t. count_list s (Text t) = count_list s (Text m) \<longrightarrow> m \<le> t)
             \<and> fill_mode s = fillna (Text m) s"
proof -
  define vs where "vs = filter (\<lambda>c. \<not> isnull c) s"
  define keys where "keys = uniq vs"
  define top where "top = foldr max (map (count_list vs) keys) 0"
  define modes where "modes = filter (\<lambda>k. count_list vs k = top) keys"
  have cnt: "count_list vs v = count_list s v" if "\<not> isnull v" for v
    unfolding vs_def using that by (rule count_list_filter)
  have keys_set: "set keys = {c \<in> set s. \<not> isnull c}"
    by (auto simp: keys_def set_uniq vs_def)
  have all_text: "\<exists>t. c = Text t" if "c \<in> set keys" for c
  proof -
    from that have "c \<in> set s" "c \<noteq> Null" using keys_set by (auto simp: isnull_def)
    moreover from this nonum have "case c of Num x \<Rightarrow> False | _ \<Rightarrow> True"
      by (simp add: list_all_iff)
    ultimately show ?thesis by - (cases c, simp_all)
  qed
  from val have "keys \<noteq> []" using keys_set by (auto simp: list_all_iff)
  from foldr_max_attained [OF this, of "count_list vs"]
  have "modes \<noteq> []" by (auto simp: modes_def top_def filter_empty_conv)
  have "\<forall>c\<in>set modes. \<exists>t. c = Text t" using all_text by (auto simp: modes_def)
  from text_values_all_text [OF this] obtain ts where
    ts: "text_values modes = Some ts" "map Text ts = modes" by blast
  with \<open>modes \<noteq> []\<close> have tne: "ts \<noteq> []" by auto
  define m where "m = hd (sort ts)"
  from hd_sort_least [OF tne] have m_in: "m \<in> set ts" and m_le: "\<forall>t\<in>set ts. m \<le> t"
    by (simp_all add: m_def)
  have "series_mode s = (case np_sort modes of Some sorted_modes \<Rightarrow> sorted_modes | None \<Rightarrow> modes)"
    unfolding series_mode_def Let_def modes_def top_def keys_def vs_def by (rule refl)
  moreover have "np_sort modes = Some (map Text (sort ts))"
    by (simp add: np_sort_def ts(1))
  ultimately have sm: "series_mode s = map Text (sort ts)" by simp
  have sne: "sort ts \<noteq> []" using tne by (metis length_sort length_0_conv)
  have s_ne: "s \<noteq> []" using val by auto
  have fm: "fill_mode s = fillna (Text m) s"
    using sne s_ne by (simp add: fill_mode_def Let_def sm m_def hd_map)
  have "Text m \<in> set modes" using m_in ts(2) by auto
  then have mk: "Text m \<in> set keys" and mtop: "count_list vs (Text m) = top"
    by (simp_all add: modes_def)
  have ctop: "count_list s (Text m) = top" using mtop cnt by (simp add: isnull_def)
  have m_s: "Text m \<in> set s" using mk keys_set by simp
  have most: "count_list s v \<le> count_list s (Text m)" if "\<not> isnull v" for v
  proof (cases "v \<in> set s")
    case True
    with that have "v \<in> set keys" using keys_set by simp
    from foldr_max_ge [OF this, of "count_list vs"] show ?thesis
      using cnt [OF that] ctop by (simp add: top_def)
  next
    case False
    then show ?thesis by (simp add: count_list_0_iff)
  qed
  have least: "m \<le> t" if "count_list s (Text t) = count_list s (Text m)" for t
  proof -
    have "count_list s (Text m) \<noteq> 0" using m_s by (simp add: count_list_0_iff)
    with that have "Text t \<in> set s" by (metis count_list_0_iff)
    then have "Text t \<in> set keys" using keys_set by (simp add: isnull_def)
    moreover have "count_list vs (Text t) = top" using that ctop cnt by (simp add: isnull_def)
    ultimately have "Text t \<in> set modes" by (simp add: modes_def)
    then have "t \<in> set ts" using ts(2) by auto
    with m_le show ?thesis by simp
  qed
  from m_s most least fm show ?thesis by blast
qed

lemma column_label_unique:
  assumes "wf_dataframe df" "(n, s) \<in> set (columns df)" "(n, s') \<in> set (columns df)"
  shows "s' = s"
proof -
  have "distinct (map fst (columns df))"
    using assms(1) by (simp add: wf_dataframe_def col_names_def)
  from eq_key_imp_eq_value [OF this assms(3) assms(2)] show ?thesis .
qed

lemma numeric_cols_iff:
  assumes "wf_dataframe df" "(n, s) \<in> set (columns df)"
  shows "n \<in> set (numeric_cols df) \<longleftrightarrow> is_numeric_dtype s"
proof
  assume "n \<in> set (numeric_cols df)"
  then obtain s' where "(n, s') \<in> set (columns df)" "is_numeric_dtype s'"
    unfolding numeric_cols_def by auto
  with column_label_unique [OF assms] show "is_numeric_dtype s" by blast
next
  assume "is_numeric_dtype s"
  with assms(2) have "(n, s) \<in> set (filter (\<lambda>(n, s). is_numeric_dtype s) (columns df))"
    by simp
  then show "n \<in> set (numeric_cols df)"
    unfolding numeric_cols_def set_map by (rule image_eqI [rotated]) simp
qed

lemma categorical_cols_iff:
  assumes "wf_dataframe df" "(n, s) \<in> set (columns df)"
  shows "n \<in> set (categorical_cols df) \<longleftrightarrow> \<not> is_numeric_dtype s"
proof
  assume "n \<in> set (categorical_cols df)"
  then obtain s' where "(n, s') \<in> set (columns df)" "\<not> is_numeric_dtype s'"
    unfolding categorical_cols_def by auto
  with column_label_unique [OF assms] show "\<not> is_numeric_dtype s" by blast
next
  assume "\<not> is_numeric_dtype s"
  with assms(2) have "(n, s) \<in> set (filter (\<lambda>(n, s). \<not> is_numeric_dtype s) (columns df))"
    by simp
  then show "n \<in> set (categorical_cols df)"
    unfolding categorical_cols_def set_map by (rule image_eqI [rotated]) simp
qed

lemma text_column_object:
  assumes "list_all (\<lambda>c. case c of Num x \<Rightarrow> False | _ \<Rightarrow> True) s" "\<not> list_all isnull s"
  shows "\<not> is_numeric_dtype s"
proof -
  from assms(2) obtain c where c: "c \<in> set s" "c \<noteq> Null" by (auto simp: list_all_iff isnull_def)
  from c(1) assms(1) have "case c of Num x \<Rightarrow> False | _ \<Rightarrow> True" by (simp add: list_all_iff)
  with c(2) obtain t where "c = Text t" by - (cases c, simp_all)
  with c(1) have "Text t \<in> set s" by simp
  then have "\<exists>x\<in>set s. \<not> (case x of Text t \<Rightarrow> False | _ \<Rightarrow> True)"
    by (intro bexI [of _ "Text t"]) simp_all
  then show ?thesis by (simp add: is_numeric_dtype_def list_all_iff)
qed

lemma text_column_after_missing:
  assumes "wf_dataframe df" "(n, s) \<in> set (columns df)"
    and "list_all (\<lambda>c. case c of Num x \<Rightarrow> False | _ \<Rightarrow> True) s" "\<not> list_all isnull s"
  shows "column_after_missing df n s = bfill (ffill (fill_mode s))"
  using text_column_object [OF assms(3,4)]
  by (simp add: column_after_missing_def Let_def numeric_cols_iff [OF assms(1,2)]
      categorical_cols_iff [OF assms(1,2)])

text \<open>
  C2, as stated, fails: pandas' \<^verbatim>\<open>Series.mode()\<close> returns the most frequent values in
  sorted order and line 59 takes the first of them.  In the column \<open>["b", "a", null]\<close>
  both texts occur once; the null becomes \<open>"a"\<close>, the smaller text, while the value met
  first in row order is \<open>"b"\<close>.
\<close>

theorem mode_imputation_counterexample:
  "preprocess_excel tie_frame = Inr (tie_cleaned, tie_report)
   \<and> columns tie_frame = [(''city'', tie_column)]
   \<and> columns (handle_missing (deduplicated tie_frame))
        = [(''city'', [Text ''b'', Text ''a'', Text ''a''])]
   \<and> spec_fill_text tie_column = [Text ''b'', Text ''a'', Text ''b'']"
  by code_simp

text \<open>
  C2, amended. For every text column (each cell a text or null) with at least one
  non-null value, stage 3 replaces each null by the column's most frequent non-null
  value; when several values share the maximal frequency the replacement is the tied
  value that is smallest in code-point (lexicographic) order.
\<close>

theorem mode_imputation:
  assumes "wf_dataframe df" and "(n, s) \<in> set (columns df)"
    and "list_all (\<lambda>c. case c of Num x \<Rightarrow> False | _ \<Rightarrow> True) s"
    and "\<not> list_all isnull s"
  shows "\<exists>m. Text m \<in> set s
             \<and> (\<forall>v. \<not> isnull v \<longrightarrow> count_list s v \<le> count_list s (Text m))
             \<and> (\<forall>t. count_list s (Text t) = count_list s (Text m) \<longrightarrow> m \<le> t)
             \<and> (n, map (\<lambda>c. if isnull c then Text m else c) s)
                   \<in> set (columns (handle_missing df))"
proof -
  from fill_mode_text_column [OF assms(3,4)] obtain m where
    m: "Text m \<in> set s"
       "\<forall>v. \<not> isnull v \<longrightarrow> count_list s v \<le> count_list s (Text m)"
       "\<forall>t. count_list s (Text t) = count_list s (Text m) \<longrightarrow> m \<le> t"
       "fill_mode s = fillna (Text m) s"
    by blast
  have nn: "list_all (\<lambda>c. \<not> isnull c) (fillna (Text m) s)"
    by (rule fillna_no_nulls) (simp add: isnull_def)
  have "column_after_missing df n s = fillna (Text m) s"
    using text_column_after_missing [OF assms] m(4) nn
    by (simp add: ffill_def ffill_from_no_nulls bfill_no_nulls_id)
  moreover have "(n, column_after_missing df n s) \<in> set (columns (handle_missing df))"
    using assms(2) unfolding columns_handle_missing set_map
    by (rule image_eqI [rotated]) simp
  ultimately have "(n, map (\<lambda>c. if isnull c then Text m else c) s)
                     \<in> set (columns (handle_missing df))"
    by (simp add: fillna_def)
  with m(1,2,3) show ?thesis by blast
qed

theorem mode_imputation_witness:
  "wf_dataframe tie_frame
   \<and> (''city'', tie_column) \<in> set (columns tie_frame)
   \<and> list_all (\<lambda>c. case c of Num x \<Rightarrow> False | _ \<Rightarrow> True) tie_column
   \<and> \<not> list_all isnull tie_column
   \<and> (''city'', [Text ''b'', Text ''a'', Text ''a'']) \<in> set (columns (handle_missing tie_frame))"
proof -
  have wf: "wf_dataframe tie_frame" by code_simp
  have col: "(''city'', tie_column) \<in> set (columns tie_frame)" by code_simp
  have nonum: "list_all (\<lambda>c. case c of Num x \<Rightarrow> False | _ \<Rightarrow> True) tie_column"
    by code_simp
  have val: "\<not> list_all isnull tie_column" by code_simp
  from mode_imputation [OF wf col nonum val] obtain m where
    m: "Text m \<in> set tie_column"
       "\<forall>t. count_list tie_column (Text t) = count_list tie_column (Text m) \<longrightarrow> m \<le> t"
       "(''city'', map (\<lambda>c. if isnull c then Text m else c) tie_column)
          \<in> set (columns (handle_missing tie_frame))"
    by blast
  have ord: "\<not> ''b'' \<le> ''a''" by code_simp
  from m(1) have "m = ''a'' \<or> m = ''b''" by (auto simp: tie_column_def)
  then have "m = ''a''"
  proof
    assume "m = ''a''" then show ?thesis .
  next
    assume b: "m = ''b''"
    have "count_list tie_column (Text ''a'') = count_list tie_column (Text ''b'')"
      by (simp add: tie_column_def)
    with m(2) b have "''b'' \<le> ''a''" by blast
    with ord show ?thesis by simp
  qed
  with m(3) have "(''city'', [Text ''b'', Text ''a'', Text ''a''])
                    \<in> set (columns (handle_missing tie_frame))"
    by (simp add: tie_column_def isnull_def)
  with wf col nonum val show ?thesis by blast
qed

section \<open>Running the pipeline on its own output\<close>

lemma length_fill_median: "length (fill_median s) = length s"
  by (simp add: fill_median_def length_fillna split: option.splits)

lemma length_fill_mode: "length (fill_mode s) = length s"
  by (simp add: fill_mode_def Let_def length_fillna)

lemma length_column_after_missing: "length (column_after_missing df n s) = length s"
  by (simp add: column_after_missing_def Let_def length_bfill ffill_def length_ffill_from
      length_fill_median length_fill_mode)

lemma column_lengths_handle_missing:
  assumes "list_all (\<lambda>(n, s). length s = nrows df) (columns df)"
  shows "list_all (\<lambda>(n, s). length s = nrows (handle_missing df)) (columns (handle_missing df))"
  using assms
  by (auto simp: list_all_iff columns_handle_missing nrows_handle_missing
      length_column_after_missing)

lemma column_lengths_normalize_columns:
  assumes "list_all (\<lambda>(n, s). length s = nrows df) (columns df)"
  shows "list_all (\<lambda>(n, s). length s = nrows (normalize_columns df))
           (columns (normalize_columns df))"
proof -
  have "columns (normalize_columns df) = map (\<lambda>(n, s). (normalize_name n, s)) (columns df)"
    by (simp add: normalize_columns_def)
  then show ?thesis using assms
    by (auto simp: list_all_iff nrows_normalize_columns)
qed

lemma cleaned_column_lengths:
  assumes "wf_dataframe df" "preprocess_excel df = Inr (t, st)"
  shows "list_all (\<lambda>(n, s). length s = nrows t) (columns t)"
proof -
  have "list_all (\<lambda>(n, s). length s = nrows (deduplicated df)) (columns (deduplicated df))"
    using wf_deduplicated [OF assms(1)] by (simp add: wf_dataframe_def)
  then show ?thesis
    unfolding preprocess_excel_Inr(2) [OF assms(2)]
    by (intro column_lengths_normalize_columns column_lengths_handle_missing)
qed

lemma dropna_no_nulls:
  assumes "no_nulls df" "list_all (\<lambda>(n, s). length s = nrows df) (columns df)" "nrows df \<noteq> 0"
  shows "columns (dropna_all_null_columns df) = columns df"
proof -
  have "\<not> list_all isnull s" if "(n, s) \<in> set (columns df)" for n s
  proof -
    from that assms(2,3) have "s \<noteq> []" by (auto simp: list_all_iff)
    then obtain c where "c \<in> set s" by (cases s) auto
    moreover from this that assms(1) have "\<not> isnull c" by (auto simp: no_nulls_def list_all_iff)
    ultimately show ?thesis by (auto simp: list_all_iff)
  qed
  then show ?thesis by (auto simp: columns_dropna filter_id_conv)
qed

text \<open>
  C1, as stated, fails: stage 2 runs before stage 3, and filling a null can make two
  rows equal that were distinct.  The first run keeps both rows of the example, the
  second run removes one of them as a duplicate.
\<close>

theorem idempotence_counterexample:
  "wf_dataframe near_duplicate_frame
   \<and> preprocess_excel near_duplicate_frame = Inr (near_duplicate_cleaned, near_duplicate_report)
   \<and> duplicates_removed near_duplicate_report = 0
   \<and> wf_dataframe near_duplicate_cleaned
   \<and> preprocess_excel near_duplicate_cleaned
        = Inr (near_duplicate_cleaned_again, near_duplicate_report_again)
   \<and> duplicates_removed near_duplicate_report_again = 1"
  by code_simp

text \<open>
  C1, amended. For every non-empty well-formed frame that the pipeline accepts and whose
  cleaned frame is again an acceptable input (it kept at least one column and its
  normalised names are pairwise distinct), running the pipeline on the cleaned frame
  succeeds, removes no all-null column and leaves \<open>missing_values_after\<close> unchanged.
  Nothing is promised about duplicate rows in the second run.
\<close>

theorem idempotence:
  assumes "wf_dataframe df" and "preprocess_excel df = Inr (t, st)"
    and "\<not> df_empty t" and "distinct (col_names t)"
  shows "\<exists>t' st'. preprocess_excel t = Inr (t', st')
                   \<and> null_columns_removed st' = 0
                   \<and> missing_values_after st' = missing_values_after st"
proof -
  have len: "list_all (\<lambda>(n, s). length s = nrows t) (columns t)"
    using cleaned_column_lengths [OF assms(1,2)] .
  with assms(4) have wf: "wf_dataframe t" by (simp add: wf_dataframe_def)
  from preprocess_excel_total [OF assms(3)] obtain t' st' where
    run: "preprocess_excel t = Inr (t', st')" by blast
  note r = preprocess_excel_Inr [OF run]
  have nn: "no_nulls t" and ma: "missing_values_after st = 0"
    using no_nulls_null_count [OF handled_no_nulls [OF assms(1)]]
      handled_no_nulls [OF assms(1)]
    by (simp_all add: preprocess_excel_Inr(2,4) [OF assms(2)] no_nulls_normalize_columns)
  have "nrows t \<noteq> 0" using assms(3) by (simp add: df_empty_def)
  from dropna_no_nulls [OF nn len this]
  have "null_columns_removed st' = 0" by (simp add: r(6) ncols_def)
  moreover have "missing_values_after st' = 0"
    using no_nulls_null_count [OF handled_no_nulls [OF wf]] by (simp add: r(4))
  ultimately show ?thesis using run ma by simp
qed

theorem idempotence_witness:
  "wf_dataframe scenario_frame
   \<and> preprocess_excel scenario_frame = Inr (scenario_cleaned, scenario_report)
   \<and> \<not> df_empty scenario_cleaned
   \<and> distinct (col_names scenario_cleaned)
   \<and> preprocess_excel scenario_cleaned = Inr (scenario_cleaned, scenario_report_again)
   \<and> null_columns_removed scenario_report_again = 0
   \<and> missing_values_after scenario_report_again = missing_values_after scenario_report"
proof -
  have wf: "wf_dataframe scenario_frame" by code_simp
  have run: "preprocess_excel scenario_frame = Inr (scenario_cleaned, scenario_report)"
    by code_simp
  have ne: "\<not> df_empty scenario_cleaned" by code_simp
  have d: "distinct (col_names scenario_cleaned)" by code_simp
  have again: "preprocess_excel scenario_cleaned = Inr (scenario_cleaned, scenario_report_again)"
    by code_simp
  from idempotence [OF wf run ne d] again
  have "null_columns_removed scenario_report_again = 0
        \<and> missing_values_after scenario_report_again = missing_values_after scenario_report"
    by auto
  with wf run ne d again show ?thesis by blast
qed

end
